theory Spec2Isabelle
  imports Main "HOL-Library.Char_ord" "HOL-Library.List_Lexorder"
begin

section \<open>Data model\<close>

text \<open>
  The order record of \<^verbatim>\<open>types\<close> (interface \<^verbatim>\<open>Order\<close>), restricted to the
  fields that the order screen reads when it polls, notifies and resolves store names.
  The identifier field \<^verbatim>\<open>id\<close> is called \<open>oid\<close>. The amount is a number that
  the code only copies and prints, so it is represented by its printed form. An order
  without a store has the empty string as its \<^verbatim>\<open>storeId\<close>, which the code treats
  like a missing one.
\<close>

record order =
  oid :: string
  orderNumber :: string
  customerName :: string
  totalAmount :: string
  storeId :: string
  status :: string
  paymentStatus :: string

text \<open>The tag of a notification: \<^verbatim>\<open>'new_order' | 'status_update' | 'payment_update'\<close>.\<close>

datatype ntype = NewOrder | StatusUpdate | PaymentUpdate

text \<open>
  A document of the remote \<^verbatim>\<open>notifications\<close> collection (interface
  \<^verbatim>\<open>Notification\<close>). The identifier \<open>nid\<close> is the one the document store
  generates on insertion.
\<close>

record notification =
  nid :: string
  orderId :: string
  nOrderNumber :: string
  nCustomerName :: string
  nTotalAmount :: string
  ntype :: ntype
  message :: string
  read :: bool
  createdAt :: string

text \<open>What the code writes to the console in its \<^verbatim>\<open>catch\<close> blocks.\<close>

datatype error =
    FetchFailure
  | LookupFailure
  | PersistenceFailure

text \<open>The result of \<^verbatim>\<open>getDoc\<close> on the \<^verbatim>\<open>stores\<close> collection.\<close>

datatype lookup = Found string | NotFound | LookupError

text \<open>
  A pending \<^verbatim>\<open>setTimeout\<close> callback: the polling version of the screen that uses
  \<^verbatim>\<open>loadOrders\<close> schedules \<^verbatim>\<open>setNewOrderIds(new Set())\<close>, the version that uses
  \<^verbatim>\<open>fetchOrders\<close> schedules the deletion of one identifier.
\<close>

datatype timer_action = ClearAll | DeleteId string

text \<open>The \<^verbatim>\<open>type\<close> of a document change of a query snapshot.\<close>

datatype change_type = added | modified | removed

text \<open>
  Everything one run of a handler receives from outside: the time in milliseconds at
  which the order query has returned, the time stamp the clock gives, the result of the
  query, the change list of that query snapshot, the store collection, whether an
  insertion into the notification collection succeeds for a given order, how long an
  awaited insertion takes, and whether a timer that falls due in the very millisecond in
  which the query returns runs before the code that follows the query or after it.
\<close>

record cycle =
  now :: nat
  clock :: string
  fetched :: "error + order list"
  docChanges :: "(change_type \<times> order) list"
  getDoc :: "string \<Rightarrow> lookup"
  addDocOk :: "string \<Rightarrow> bool"
  insertDelay :: nat
  timersFirst :: bool

text \<open>
  The state of the order screen (its \<^verbatim>\<open>useState\<close> and \<^verbatim>\<open>useRef\<close> cells),
  the timers it has pending, the console log, the log of store look-ups it has issued,
  and the remote notification collection it writes to. The cells that only drive the
  display (the filtered list, the search box, the spinners of the buttons) are left out.
\<close>

record engine =
  orders :: "order list"
  loading :: bool
  newOrderIds :: "string set"
  storeNames :: "string \<rightharpoonup> string"
  previousOrders :: "string set"
  timers :: "(nat \<times> timer_action) list"
  errlog :: "error list"
  lookups :: "string list"
  notifications :: "notification list"

text \<open>The initial values of the cells, over a notification collection \<open>ns\<close>.\<close>

definition init :: "notification list \<Rightarrow> engine" where
  "init ns = \<lparr>orders = [], loading = True, newOrderIds = {}, storeNames = Map.empty,
     previousOrders = {}, timers = [], errlog = [], lookups = [], notifications = ns\<rparr>"

section \<open>Store name cache\<close>

text \<open>
  \<^verbatim>\<open>fetchStoreName\<close>: one \<^verbatim>\<open>getDoc\<close>; when the store exists its name is put
  into \<^verbatim>\<open>storeNames\<close> and returned; otherwise, and when the look-up throws, the
  result is \<^verbatim>\<open>null\<close> and the cache is left alone.
\<close>

definition fetchStoreName :: "cycle \<Rightarrow> string \<Rightarrow> engine \<Rightarrow> string option \<times> engine" where
  "fetchStoreName c sid s =
     (let s' = s\<lparr>lookups := lookups s @ [sid]\<rparr> in
      case getDoc c sid of
        Found storeName \<Rightarrow>
          (Some storeName, s'\<lparr>storeNames := (storeNames s')(sid \<mapsto> storeName)\<rparr>)
      | NotFound \<Rightarrow> (None, s')
      | LookupError \<Rightarrow> (None, s'\<lparr>errlog := errlog s' @ [LookupFailure]\<rparr>))"

text \<open>
  \<^verbatim>\<open>storeNames\<close> is a plain object, so a key that it does not hold itself is looked up
  in \<^verbatim>\<open>Object.prototype\<close>. These are the keys found there; their values are functions
  or objects.
\<close>

definition object_keys :: "string list" where
  "object_keys = [''constructor'', ''__defineGetter__'', ''__defineSetter__'',
     ''hasOwnProperty'', ''__lookupGetter__'', ''__lookupSetter__'', ''isPrototypeOf'',
     ''propertyIsEnumerable'', ''toString'', ''valueOf'', ''__proto__'', ''toLocaleString'']"

text \<open>
  The test \<^verbatim>\<open>!storeNames[storeId]\<close>: the object holds the key with an empty name, or
  it does not hold the key and the key is not an inherited one.
\<close>

definition cache_miss :: "(string \<rightharpoonup> string) \<Rightarrow> string \<Rightarrow> bool" where
  "cache_miss names sid =
     (case names sid of None \<Rightarrow> sid \<notin> set object_keys | Some n \<Rightarrow> n = [])"

text \<open>
  The guarded call of the callers, \<^verbatim>\<open>if (storeId && !storeNames[storeId]) fetchStoreName(storeId)\<close>,
  where \<^verbatim>\<open>storeNames\<close> is the value the callback closed over.
\<close>

definition resolve :: "cycle \<Rightarrow> (string \<rightharpoonup> string) \<Rightarrow> string \<Rightarrow> engine \<Rightarrow> engine" where
  "resolve c names sid s =
     (if sid \<noteq> [] \<and> cache_miss names sid then snd (fetchStoreName c sid s) else s)"

section \<open>Notification emitter\<close>

text \<open>
  The identifier the document store gives to a new document: one not in use (here, one
  longer than every identifier of the collection).
\<close>

definition fresh_id :: "notification list \<Rightarrow> string" where
  "fresh_id ns = replicate (Suc (foldr (\<lambda>n m. max (length (nid n)) m) ns 0)) CHR ''n''"

text \<open>
  \<^verbatim>\<open>saveNotification\<close>: \<^verbatim>\<open>addDoc\<close> of an unread record stamped with the
  current time; a failed insertion is logged and nothing else happens.
\<close>

definition saveNotification :: "cycle \<Rightarrow> order \<Rightarrow> ntype \<Rightarrow> string \<Rightarrow> engine \<Rightarrow> engine" where
  "saveNotification c ord t msg s =
     (if addDocOk c (oid ord)
      then s\<lparr>notifications := notifications s @
              [\<lparr>nid = fresh_id (notifications s), orderId = oid ord,
                nOrderNumber = orderNumber ord, nCustomerName = customerName ord,
                nTotalAmount = totalAmount ord, ntype = t, message = msg,
                read = False, createdAt = clock c\<rparr>]\<rparr>
      else s\<lparr>errlog := errlog s @ [PersistenceFailure]\<rparr>)"

section \<open>Polling: \<^verbatim>\<open>loadOrders\<close>\<close>

text \<open>
  The body of \<^verbatim>\<open>ordersData.forEach\<close> in \<^verbatim>\<open>loadOrders\<close>. It carries the local
  set \<^verbatim>\<open>newIds\<close> next to the state. \<open>prev\<close> is \<^verbatim>\<open>previousOrdersRef.current\<close>,
  which the loop does not change, and \<open>names\<close> is the \<^verbatim>\<open>storeNames\<close> the callback
  closed over. The two calls it makes are not awaited; their effects are taken in call order.
\<close>

definition forEach_body ::
  "cycle \<Rightarrow> string set \<Rightarrow> (string \<rightharpoonup> string) \<Rightarrow> string set \<times> engine \<Rightarrow> order
     \<Rightarrow> string set \<times> engine" where
  "forEach_body c prev names acc ord =
     (let (newIds, s) = acc;
          (newIds1, s1) =
            (if oid ord \<notin> prev
             then (insert (oid ord) newIds,
                   if prev \<noteq> {}
                   then saveNotification c ord NewOrder
                          (''New order #'' @ orderNumber ord @ '' received'') s
                   else s)
             else (newIds, s))
      in (newIds1, resolve c names (storeId ord) s1))"

text \<open>
  \<^verbatim>\<open>loadOrders\<close>. A failed query is logged and only \<^verbatim>\<open>loading\<close> is set. Otherwise
  the loop runs, a non-empty \<^verbatim>\<open>newIds\<close> replaces the highlight set and schedules its
  clearing five seconds later, and the snapshot of identifiers is replaced.
\<close>

definition loadOrders :: "cycle \<Rightarrow> engine \<Rightarrow> engine" where
  "loadOrders c s =
     (case fetched c of
        Inl e \<Rightarrow> s\<lparr>errlog := errlog s @ [e], loading := False\<rparr>
      | Inr ordersData \<Rightarrow>
          (let currentOrderIds = set (map oid ordersData);
               (newIds, s1) =
                  foldl (forEach_body c (previousOrders s) (storeNames s)) ({}, s) ordersData;
               s2 = (if newIds \<noteq> {}
                     then s1\<lparr>newOrderIds := newIds,
                             timers := timers s1 @ [(now c + 5000, ClearAll)]\<rparr>
                     else s1)
           in s2\<lparr>previousOrders := currentOrderIds, orders := ordersData,
                 loading := False\<rparr>))"

section \<open>Timers\<close>

text \<open>What a timer callback does to the highlight set.\<close>

fun fire :: "timer_action \<Rightarrow> string set \<Rightarrow> string set" where
  "fire ClearAll ids = {}"
| "fire (DeleteId i) ids = ids - {i}"

text \<open>
  The event loop at time \<open>t\<close>: every pending timer whose delay has elapsed runs and is
  removed. The callbacks only remove identifiers, so the order in which they run does not
  change the result.
\<close>

definition run_timers :: "nat \<Rightarrow> engine \<Rightarrow> engine" where
  "run_timers t s =
     s\<lparr>newOrderIds := foldl (\<lambda>ids tm. fire (snd tm) ids) (newOrderIds s)
                          (filter (\<lambda>tm. fst tm \<le> t) (timers s)),
       timers := filter (\<lambda>tm. \<not> fst tm \<le> t) (timers s)\<rparr>"

text \<open>The same for an arbitrary choice of the timers that run.\<close>

definition fire_due :: "(nat \<times> timer_action \<Rightarrow> bool) \<Rightarrow> engine \<Rightarrow> engine" where
  "fire_due due s =
     s\<lparr>newOrderIds := foldl (\<lambda>ids tm. fire (snd tm) ids) (newOrderIds s)
                          (filter due (timers s)),
       timers := filter (\<lambda>tm. \<not> due tm) (timers s)\<rparr>"

text \<open>
  The timers that have run when the code after the awaited query of cycle \<open>c\<close> runs:
  those due earlier, and those due in the same millisecond when the event loop took them
  first.
\<close>

definition settle :: "cycle \<Rightarrow> engine \<Rightarrow> engine" where
  "settle c s = fire_due (\<lambda>tm. fst tm < now c \<or> (fst tm = now c \<and> timersFirst c)) s"

text \<open>The query of the renderer at time \<open>t\<close>: \<^verbatim>\<open>newOrderIds.has(order.id)\<close>.\<close>

definition isFresh :: "nat \<Rightarrow> engine \<Rightarrow> string \<Rightarrow> bool" where
  "isFresh t s i = (i \<in> newOrderIds (run_timers t s))"

text \<open>One poll cycle at its time, and a sequence of them.\<close>

definition poll :: "cycle \<Rightarrow> engine \<Rightarrow> engine" where
  "poll c s = loadOrders c (settle c s)"

definition run_polls :: "engine \<Rightarrow> cycle list \<Rightarrow> engine" where
  "run_polls s cs = foldl (\<lambda>s c. poll c s) s cs"

section \<open>Polling: \<^verbatim>\<open>fetchOrders\<close>\<close>


text \<open>
  The part of the \<^verbatim>\<open>docChanges\<close> callback behind the test
  \<^verbatim>\<open>!previousOrdersRef.current.has(change.doc.id)\<close>: the identifier is added to the
  highlight set, the notification is saved, and a timer is set that deletes this one
  identifier. The message is the template with the rupee sign in UTF-8. The timer is set
  after the awaited insertion, so its five seconds start when the insertion is over.
\<close>

definition mark_new :: "cycle \<Rightarrow> string set \<Rightarrow> order \<Rightarrow> engine \<Rightarrow> engine" where
  "mark_new c prev ord s =
     (if oid ord \<notin> prev
      then (let s1 = s\<lparr>newOrderIds := insert (oid ord) (newOrderIds s)\<rparr>;
                s2 = saveNotification c ord NewOrder
                       (''New order received from '' @ customerName ord @ '' - '' @
                        [CHR 0xE2, CHR 0x82, CHR 0xB9] @ totalAmount ord) s1
            in s2\<lparr>timers := timers s2 @
                    [(now c + insertDelay c + 5000, DeleteId (oid ord))]\<rparr>)
      else s)"

text \<open>
  The \<^verbatim>\<open>async\<close> callback of \<^verbatim>\<open>docChanges().forEach\<close>. When the store name is
  not in the closed-over cache the callback awaits \<^verbatim>\<open>fetchStoreName\<close> and is resumed
  only after the caller has run to its end, so its test reads the reference after the
  assignment \<^verbatim>\<open>previousOrdersRef.current = new Set(...)\<close> (\<open>prevNew\<close>); otherwise
  the test runs inside the loop and reads the old snapshot (\<open>prevOld\<close>).
\<close>

definition handle_change ::
  "cycle \<Rightarrow> string set \<Rightarrow> string set \<Rightarrow> (string \<rightharpoonup> string) \<Rightarrow> engine
     \<Rightarrow> change_type \<times> order \<Rightarrow> engine" where
  "handle_change c prevOld prevNew names s ch =
     (let (ty, ord) = ch in
      if ty = added
      then (if storeId ord \<noteq> [] \<and> cache_miss names (storeId ord)
            then mark_new c prevNew ord (snd (fetchStoreName c (storeId ord) s))
            else mark_new c prevOld ord s)
      else s)"

text \<open>The iteration order of \<^verbatim>\<open>new Set(array)\<close>: first occurrences.\<close>

definition uniq :: "'a list \<Rightarrow> 'a list" where
  "uniq xs = rev (remdups (rev xs))"

text \<open>
  \<^verbatim>\<open>fetchOrders\<close>. \<^verbatim>\<open>loading\<close> is the value the callback closed over; the
  callback is rebuilt whenever \<^verbatim>\<open>loading\<close> changes, so it is the current one.
  The \<^verbatim>\<open>finally\<close> block clears \<^verbatim>\<open>loading\<close> on both paths.
\<close>

definition fetchOrders :: "cycle \<Rightarrow> engine \<Rightarrow> engine" where
  "fetchOrders c s =
     (case fetched c of
        Inl e \<Rightarrow> s\<lparr>errlog := errlog s @ [e], loading := False\<rparr>
      | Inr ordersData \<Rightarrow>
          (let names = storeNames s;
               s1 = foldl (\<lambda>s sid. resolve c names sid s) s (uniq (map storeId ordersData));
               prevNew = set (map oid ordersData);
               s2 = (if \<not> loading s
                     then foldl (handle_change c (previousOrders s) prevNew names) s1
                            (docChanges c)
                     else s1)
           in s2\<lparr>previousOrders := prevNew, orders := ordersData, loading := False\<rparr>))"

definition fetch_poll :: "cycle \<Rightarrow> engine \<Rightarrow> engine" where
  "fetch_poll c s = fetchOrders c (settle c s)"

section \<open>Status and payment transitions\<close>

text \<open>
  \<^verbatim>\<open>updateDoc\<close> on one document of the remote \<^verbatim>\<open>orders\<close> collection: it fails
  when the store cannot be reached or the document does not exist.
\<close>

definition updateDoc_order ::
  "bool \<Rightarrow> string \<Rightarrow> (order \<Rightarrow> order) \<Rightarrow> order list \<Rightarrow> error + order list" where
  "updateDoc_order online i f db =
     (if online \<and> i \<in> set (map oid db)
      then Inr (map (\<lambda>ord. if oid ord = i then f ord else ord) db)
      else Inl PersistenceFailure)"

text \<open>
  \<^verbatim>\<open>handleStatusUpdate\<close> and \<^verbatim>\<open>handlePaymentStatusUpdate\<close>, of the version that
  polls with \<^verbatim>\<open>loadOrders\<close>: after the write, the order is looked up in the local
  list, a notification is saved when it is found, and the orders are loaded again.
  The result is the remote order collection and the state of the screen.
\<close>

definition handleStatusUpdate ::
  "bool \<Rightarrow> cycle \<Rightarrow> string \<Rightarrow> string \<Rightarrow> order list \<times> engine \<Rightarrow> order list \<times> engine" where
  "handleStatusUpdate online c orderId' newStatus w =
     (let (db, s) = w in
      case updateDoc_order online orderId' (\<lambda>ord. ord\<lparr>status := newStatus\<rparr>) db of
        Inr db' \<Rightarrow>
          (let s1 = (case find (\<lambda>o'. oid o' = orderId') (orders s) of
                       Some updatedOrder \<Rightarrow>
                         saveNotification c updatedOrder StatusUpdate
                           (''Order #'' @ orderNumber updatedOrder @
                            '' status updated to '' @ newStatus) s
                     | None \<Rightarrow> s)
           in (db', loadOrders c s1))
      | Inl e \<Rightarrow> (db, s\<lparr>errlog := errlog s @ [e]\<rparr>))"

definition handlePaymentStatusUpdate ::
  "bool \<Rightarrow> cycle \<Rightarrow> string \<Rightarrow> string \<Rightarrow> order list \<times> engine \<Rightarrow> order list \<times> engine" where
  "handlePaymentStatusUpdate online c orderId' newPaymentStatus w =
     (let (db, s) = w in
      case updateDoc_order online orderId' (\<lambda>ord. ord\<lparr>paymentStatus := newPaymentStatus\<rparr>) db of
        Inr db' \<Rightarrow>
          (let s1 = (case find (\<lambda>o'. oid o' = orderId') (orders s) of
                       Some updatedOrder \<Rightarrow>
                         saveNotification c updatedOrder PaymentUpdate
                           (''Order #'' @ orderNumber updatedOrder @
                            '' payment status updated to '' @ newPaymentStatus) s
                     | None \<Rightarrow> s)
           in (db', loadOrders c s1))
      | Inl e \<Rightarrow> (db, s\<lparr>errlog := errlog s @ [e]\<rparr>))"

text \<open>
  \<^verbatim>\<open>updateDeliveryStatus\<close> and \<^verbatim>\<open>updatePaymentStatus\<close>, of the version that polls
  with \<^verbatim>\<open>fetchOrders\<close>: the write, and a log entry when it fails.
\<close>

definition updateDeliveryStatus ::
  "bool \<Rightarrow> string \<Rightarrow> string \<Rightarrow> order list \<times> engine \<Rightarrow> order list \<times> engine" where
  "updateDeliveryStatus online orderId' newStatus w =
     (let (db, s) = w in
      case updateDoc_order online orderId' (\<lambda>ord. ord\<lparr>status := newStatus\<rparr>) db of
        Inr db' \<Rightarrow> (db', s)
      | Inl e \<Rightarrow> (db, s\<lparr>errlog := errlog s @ [e]\<rparr>))"

definition updatePaymentStatus ::
  "bool \<Rightarrow> string \<Rightarrow> string \<Rightarrow> order list \<times> engine \<Rightarrow> order list \<times> engine" where
  "updatePaymentStatus online orderId' newPaymentStatus w =
     (let (db, s) = w in
      case updateDoc_order online orderId' (\<lambda>ord. ord\<lparr>paymentStatus := newPaymentStatus\<rparr>) db of
        Inr db' \<Rightarrow> (db', s)
      | Inl e \<Rightarrow> (db, s\<lparr>errlog := errlog s @ [e]\<rparr>))"

section \<open>Notification inbox\<close>

text \<open>
  The query of the notification panel: \<^verbatim>\<open>orderBy('createdAt', 'desc'), limit(50)\<close>
  over the remote collection. Time stamps are ISO strings and compare as strings. The
  panel's list is the latest snapshot of this query.
\<close>

definition orderByCreatedAtDesc :: "notification list \<Rightarrow> notification list" where
  "orderByCreatedAtDesc db = rev (sort_key createdAt db)"

definition listNotifications :: "notification list \<Rightarrow> notification list" where
  "listNotifications db = take 50 (orderByCreatedAtDesc db)"

text \<open>\<^verbatim>\<open>notifications.filter(n => !n.read).length\<close> over the panel's list.\<close>

definition unreadCount :: "notification list \<Rightarrow> nat" where
  "unreadCount notifs = length (filter (\<lambda>n. \<not> read n) notifs)"

text \<open>
  \<^verbatim>\<open>updateDoc(notificationRef, { read: true })\<close>: it fails when the store cannot be
  reached or the document does not exist.
\<close>

definition updateDoc_read :: "bool \<Rightarrow> string \<Rightarrow> notification list \<Rightarrow> error + notification list" where
  "updateDoc_read online i db =
     (if online \<and> i \<in> set (map nid db)
      then Inr (map (\<lambda>n. if nid n = i then n\<lparr>read := True\<rparr> else n) db)
      else Inl PersistenceFailure)"

text \<open>
  \<^verbatim>\<open>markAsRead\<close>, on the console log and the remote collection: a failure is
  logged and the collection stays as it is.
\<close>

definition markAsRead ::
  "bool \<Rightarrow> string \<Rightarrow> error list \<times> notification list \<Rightarrow> error list \<times> notification list" where
  "markAsRead online i w =
     (let (log, db) = w in
      case updateDoc_read online i db of
        Inr db' \<Rightarrow> (log, db')
      | Inl e \<Rightarrow> (log @ [e], db))"

text \<open>
  \<^verbatim>\<open>handleNotificationClick\<close> on a record \<open>n\<close> of the panel's list: it marks the
  record only when the panel shows it unread. The navigation callbacks it then calls
  belong to the parent and are not part of the state.
\<close>

definition handleNotificationClick ::
  "bool \<Rightarrow> notification \<Rightarrow> error list \<times> notification list \<Rightarrow> error list \<times> notification list" where
  "handleNotificationClick online n w = (if \<not> read n then markAsRead online (nid n) w else w)"

section \<open>The system as a machine\<close>

text \<open>
  Every operation of the two screens that touches the state, as an action on the remote
  order collection and the rest of the state. An operation that carries a cycle runs
  after the timers that have run by then.
\<close>

datatype action =
    Poll cycle
  | FetchPoll cycle
  | SetStatus bool cycle string string
  | SetPayment bool cycle string string
  | SetDeliveryStatus bool string string
  | SetPaymentStatus bool string string
  | MarkRead bool string
  | Click bool notification
  | Elapse nat

fun step :: "action \<Rightarrow> order list \<times> engine \<Rightarrow> order list \<times> engine" where
  "step (Poll c) (db, s) = (db, poll c s)"
| "step (FetchPoll c) (db, s) = (db, fetch_poll c s)"
| "step (SetStatus online c i v) (db, s) =
     handleStatusUpdate online c i v (db, settle c s)"
| "step (SetPayment online c i v) (db, s) =
     handlePaymentStatusUpdate online c i v (db, settle c s)"
| "step (SetDeliveryStatus online i v) (db, s) = updateDeliveryStatus online i v (db, s)"
| "step (SetPaymentStatus online i v) (db, s) = updatePaymentStatus online i v (db, s)"
| "step (MarkRead online i) (db, s) =
     (let (log, ns) = markAsRead online i (errlog s, notifications s)
      in (db, s\<lparr>errlog := log, notifications := ns\<rparr>))"
| "step (Click online n) (db, s) =
     (let (log, ns) = handleNotificationClick online n (errlog s, notifications s)
      in (db, s\<lparr>errlog := log, notifications := ns\<rparr>))"
| "step (Elapse t) (db, s) = (db, run_timers t s)"

definition run :: "order list \<times> engine \<Rightarrow> action list \<Rightarrow> order list \<times> engine" where
  "run w as = foldl (\<lambda>w a. step a w) w as"

section \<open>Observations\<close>

text \<open>The type and the referenced order of a notification.\<close>

definition tag :: "notification \<Rightarrow> ntype \<times> string" where
  "tag n = (ntype n, orderId n)"

text \<open>The number of persisted notifications of type \<open>t\<close> that reference order \<open>i\<close>.\<close>

definition count_for :: "ntype \<Rightarrow> string \<Rightarrow> engine \<Rightarrow> nat" where
  "count_for t i s = length (filter (\<lambda>n. tag n = (t, i)) (notifications s))"

text \<open>
  The orders for which one run of \<^verbatim>\<open>loadOrders\<close> inserts a notification, given the
  snapshot \<open>prev\<close> it starts from.
\<close>

definition emitted :: "cycle \<Rightarrow> string set \<Rightarrow> order list \<Rightarrow> order list" where
  "emitted c prev os =
     filter (\<lambda>ord. oid ord \<notin> prev \<and> prev \<noteq> {} \<and> addDocOk c (oid ord)) os"

text \<open>The identifiers of a query result.\<close>

definition ids :: "cycle \<Rightarrow> string set" where
  "ids c = (case fetched c of Inl e \<Rightarrow> {} | Inr os \<Rightarrow> set (map oid os))"

definition fetch_ok :: "cycle \<Rightarrow> bool" where
  "fetch_ok c = (case fetched c of Inl e \<Rightarrow> False | Inr os \<Rightarrow> True)"

text \<open>The number of records whose read flag differs between two states of the collection.\<close>

definition read_transitions :: "notification list \<Rightarrow> notification list \<Rightarrow> nat" where
  "read_transitions db db' = length (filter (\<lambda>(a, b). read a \<noteq> read b) (zip db db'))"


text \<open>
  No record of the collection \<open>ns\<close> is lost, renumbered or turned from read to unread
  in \<open>ns'\<close>.
\<close>

definition keeps_read :: "notification list \<Rightarrow> notification list \<Rightarrow> bool" where
  "keeps_read ns ns' =
     (length ns \<le> length ns' \<and>
      (\<forall>k < length ns. nid (ns' ! k) = nid (ns ! k) \<and> (read (ns ! k) \<longrightarrow> read (ns' ! k))))"


text \<open>A sequence of \<^verbatim>\<open>fetchOrders\<close> cycles.\<close>

definition run_fetch_polls :: "engine \<Rightarrow> cycle list \<Rightarrow> engine" where
  "run_fetch_polls s cs = foldl (\<lambda>s c. fetch_poll c s) s cs"





section \<open>Scheduling\<close>

text \<open>
  The interval belongs to an effect whose only dependency is the polling callback, and the
  callback is rebuilt when one of its own dependencies has a new value:
  \<^verbatim>\<open>[loading, storeNames]\<close> for \<^verbatim>\<open>fetchOrders\<close>, \<^verbatim>\<open>[storeNames]\<close> for
  \<^verbatim>\<open>loadOrders\<close>. \<^verbatim>\<open>storeNames\<close> gets a new value whenever
  \<^verbatim>\<open>setStoreNames\<close> is called, that is whenever a look-up of the cycle finds its store.
  When no dependency has a new value the next call is that of the interval, one period
  after the call before. Otherwise the callback is rebuilt and the effect runs again: the
  interval is cleared, the callback is called at once and a new interval is set. \<open>tick\<close> is the time of the call that
  started the cycle, \<open>now c\<close> the time the cycle commits its state.
\<close>

definition names_set :: "cycle \<Rightarrow> engine \<Rightarrow> engine \<Rightarrow> bool" where
  "names_set c s s' =
     list_ex (\<lambda>sid. case getDoc c sid of Found n \<Rightarrow> True | NotFound \<Rightarrow> False
                                         | LookupError \<Rightarrow> False)
       (drop (length (lookups s)) (lookups s'))"

definition next_fetchOrders :: "nat \<Rightarrow> cycle \<Rightarrow> engine \<Rightarrow> nat" where
  "next_fetchOrders tick c s =
     (let s' = fetch_poll c s
      in if loading s' = loading s \<and> \<not> names_set c s s' then tick + 60000 else now c)"

definition next_loadOrders :: "nat \<Rightarrow> cycle \<Rightarrow> engine \<Rightarrow> nat" where
  "next_loadOrders tick c s =
     (let s' = poll c s
      in if \<not> names_set c s s' then tick + 5000 else now c)"

section \<open>Sample inputs\<close>

text \<open>An order with identifier \<open>i\<close> of store \<open>st\<close>, and a poll at time \<open>t\<close> whose
  query returns \<open>os\<close>, every document of the result reported as added, no store on record,
  every insertion succeeding at once and due timers taken first.\<close>

definition an_order :: "string \<Rightarrow> string \<Rightarrow> order" where
  "an_order i st = \<lparr>oid = i, orderNumber = ''N-'' @ i, customerName = ''Asha'',
     totalAmount = ''120'', storeId = st, status = ''pending'', paymentStatus = ''pending''\<rparr>"

definition a_poll :: "nat \<Rightarrow> order list \<Rightarrow> cycle" where
  "a_poll t os = \<lparr>now = t, clock = ''2024-01-01T00:00:00.000Z'', fetched = Inr os,
     docChanges = map (Pair added) os, getDoc = (\<lambda>sid. NotFound), addDocOk = (\<lambda>i. True),
     insertDelay = 0, timersFirst = True\<rparr>"

definition a_failed_poll :: "nat \<Rightarrow> cycle" where
  "a_failed_poll t = \<lparr>now = t, clock = ''2024-01-01T00:00:00.000Z'', fetched = Inl FetchFailure,
     docChanges = [], getDoc = (\<lambda>sid. NotFound), addDocOk = (\<lambda>i. True),
     insertDelay = 0, timersFirst = True\<rparr>"

text \<open>Decimal digits of a number.\<close>

fun show_nat :: "nat \<Rightarrow> string" where
  "show_nat n =
     (if n < 10 then [char_of (48 + n)]
      else show_nat (n div 10) @ [char_of (48 + n mod 10)])"

text \<open>A notification numbered \<open>k\<close>, created at second \<open>k\<close> of a minute, read or not.\<close>

definition stamp :: "nat \<Rightarrow> string" where
  "stamp k = ''2024-01-01T00:00:'' @ (if k < 10 then ''0'' else []) @ show_nat k @ ''.000Z''"

definition a_notification :: "nat \<Rightarrow> bool \<Rightarrow> notification" where
  "a_notification k r = \<lparr>nid = ''n'' @ show_nat k, orderId = ''A'', nOrderNumber = ''N-A'',
     nCustomerName = ''Asha'', nTotalAmount = ''120'', ntype = NewOrder,
     message = ''New order #N-A received'', read = r, createdAt = stamp k\<rparr>"

lemmas sample_defs = an_order_def a_poll_def a_failed_poll_def

lemmas eval_defs = init_def poll_def fetch_poll_def loadOrders_def fetchOrders_def
  run_timers_def settle_def fire_due_def forEach_body_def handle_change_def mark_new_def
  resolve_def cache_miss_def object_keys_def
  fetchStoreName_def saveNotification_def fresh_id_def uniq_def run_polls_def

section \<open>What each operation leaves alone\<close>

lemma saveNotification_frame:
  "previousOrders (saveNotification c ord t msg s) = previousOrders s"
  "newOrderIds (saveNotification c ord t msg s) = newOrderIds s"
  "timers (saveNotification c ord t msg s) = timers s"
  "storeNames (saveNotification c ord t msg s) = storeNames s"
  "lookups (saveNotification c ord t msg s) = lookups s"
  "orders (saveNotification c ord t msg s) = orders s"
  "loading (saveNotification c ord t msg s) = loading s"
  by (simp_all add: saveNotification_def)

lemma saveNotification_tags:
  "map tag (notifications (saveNotification c ord t msg s)) =
     map tag (notifications s) @ (if addDocOk c (oid ord) then [(t, oid ord)] else [])"
  by (simp add: saveNotification_def tag_def)

lemma resolve_frame:
  "previousOrders (resolve c names sid s) = previousOrders s"
  "newOrderIds (resolve c names sid s) = newOrderIds s"
  "timers (resolve c names sid s) = timers s"
  "notifications (resolve c names sid s) = notifications s"
  "orders (resolve c names sid s) = orders s"
  "loading (resolve c names sid s) = loading s"
  by (simp_all add: resolve_def fetchStoreName_def Let_def split: lookup.splits)

lemma forEach_body_frame:
  "previousOrders (snd (forEach_body c prev names (N, s) ord)) = previousOrders s"
  "newOrderIds (snd (forEach_body c prev names (N, s) ord)) = newOrderIds s"
  "timers (snd (forEach_body c prev names (N, s) ord)) = timers s"
  "orders (snd (forEach_body c prev names (N, s) ord)) = orders s"
  "loading (snd (forEach_body c prev names (N, s) ord)) = loading s"
  by (simp_all add: forEach_body_def resolve_frame saveNotification_frame)

lemma forEach_body_newIds:
  "fst (forEach_body c prev names (N, s) ord) = (if oid ord \<notin> prev then insert (oid ord) N else N)"
  by (simp add: forEach_body_def)

lemma forEach_body_tags:
  "map tag (notifications (snd (forEach_body c prev names (N, s) ord))) =
     map tag (notifications s) @ map (\<lambda>ord. (NewOrder, oid ord)) (emitted c prev [ord])"
  by (simp add: forEach_body_def resolve_frame saveNotification_tags emitted_def)

lemma foldl_forEach:
  "fst (foldl (forEach_body c prev names) (N, s) os) = N \<union> {i \<in> set (map oid os). i \<notin> prev} \<and>
   map tag (notifications (snd (foldl (forEach_body c prev names) (N, s) os))) =
     map tag (notifications s) @ map (\<lambda>ord. (NewOrder, oid ord)) (emitted c prev os) \<and>
   previousOrders (snd (foldl (forEach_body c prev names) (N, s) os)) = previousOrders s \<and>
   newOrderIds (snd (foldl (forEach_body c prev names) (N, s) os)) = newOrderIds s \<and>
   timers (snd (foldl (forEach_body c prev names) (N, s) os)) = timers s \<and>
   orders (snd (foldl (forEach_body c prev names) (N, s) os)) = orders s \<and>
   loading (snd (foldl (forEach_body c prev names) (N, s) os)) = loading s"
proof (induction os arbitrary: N s)
  case Nil
  show ?case by (simp add: emitted_def)
next
  case (Cons ord os)
  obtain N1 s1 where st: "forEach_body c prev names (N, s) ord = (N1, s1)"
    by (cases "forEach_body c prev names (N, s) ord")
  have n1: "N1 = (if oid ord \<notin> prev then insert (oid ord) N else N)"
    using forEach_body_newIds [of c prev names N s ord] st by simp
  have t1: "map tag (notifications s1) =
      map tag (notifications s) @ map (\<lambda>ord. (NewOrder, oid ord)) (emitted c prev [ord])"
    using forEach_body_tags [of c prev names N s ord] st by simp
  have f1: "previousOrders s1 = previousOrders s" "newOrderIds s1 = newOrderIds s"
    "timers s1 = timers s" "orders s1 = orders s" "loading s1 = loading s"
    using forEach_body_frame [of c prev names N s ord] st by simp_all
  have e: "emitted c prev (ord # os) = emitted c prev [ord] @ emitted c prev os"
    by (simp add: emitted_def)
  show ?case
    using Cons.IH [of N1 s1] st n1 t1 f1 e by auto
qed

text \<open>The two outcomes of \<^verbatim>\<open>loadOrders\<close>, field by field.\<close>

lemma loadOrders_Inl:
  "fetched c = Inl e \<Longrightarrow> loadOrders c s = s\<lparr>errlog := errlog s @ [e], loading := False\<rparr>"
  by (simp add: loadOrders_def)

lemma loadOrders_Inr:
  assumes "fetched c = Inr os"
  shows "previousOrders (loadOrders c s) = set (map oid os)"
    and "map tag (notifications (loadOrders c s)) =
           map tag (notifications s) @ map (\<lambda>ord. (NewOrder, oid ord)) (emitted c (previousOrders s) os)"
    and "newOrderIds (loadOrders c s) =
           (if {i \<in> set (map oid os). i \<notin> previousOrders s} \<noteq> {}
            then {i \<in> set (map oid os). i \<notin> previousOrders s} else newOrderIds s)"
    and "timers (loadOrders c s) =
           (if {i \<in> set (map oid os). i \<notin> previousOrders s} \<noteq> {}
            then timers s @ [(now c + 5000, ClearAll)] else timers s)"
    and "orders (loadOrders c s) = os"
    and "loading (loadOrders c s) = False"
proof -
  obtain N1 s1 where st:
    "foldl (forEach_body c (previousOrders s) (storeNames s)) ({}, s) os = (N1, s1)"
    by (cases "foldl (forEach_body c (previousOrders s) (storeNames s)) ({}, s) os")
  note F = foldl_forEach [of c "previousOrders s" "storeNames s" "{}" s os, unfolded st, simplified]
  have L: "loadOrders c s =
     (if N1 \<noteq> {} then s1\<lparr>newOrderIds := N1, timers := timers s1 @ [(now c + 5000, ClearAll)]\<rparr>
      else s1)\<lparr>previousOrders := set (map oid os), orders := os, loading := False\<rparr>"
    using assms st by (simp add: loadOrders_def Let_def)
  show "previousOrders (loadOrders c s) = set (map oid os)" by (simp add: L)
  show "map tag (notifications (loadOrders c s)) =
           map tag (notifications s) @ map (\<lambda>ord. (NewOrder, oid ord)) (emitted c (previousOrders s) os)"
    using F by (simp add: L)
  show "newOrderIds (loadOrders c s) =
           (if {i \<in> set (map oid os). i \<notin> previousOrders s} \<noteq> {}
            then {i \<in> set (map oid os). i \<notin> previousOrders s} else newOrderIds s)"
    using F by (simp add: L)
  show "timers (loadOrders c s) =
           (if {i \<in> set (map oid os). i \<notin> previousOrders s} \<noteq> {}
            then timers s @ [(now c + 5000, ClearAll)] else timers s)"
    using F by (simp add: L)
  show "orders (loadOrders c s) = os" by (simp add: L)
  show "loading (loadOrders c s) = False" by (simp add: L)
qed


lemma fire_due_frame:
  "previousOrders (fire_due due s) = previousOrders s"
  "notifications (fire_due due s) = notifications s"
  "orders (fire_due due s) = orders s"
  "loading (fire_due due s) = loading s"
  "storeNames (fire_due due s) = storeNames s"
  "errlog (fire_due due s) = errlog s"
  "lookups (fire_due due s) = lookups s"
  by (simp_all add: fire_due_def)

lemma run_timers_frame:
  "previousOrders (run_timers t s) = previousOrders s"
  "notifications (run_timers t s) = notifications s"
  "orders (run_timers t s) = orders s"
  "loading (run_timers t s) = loading s"
  "storeNames (run_timers t s) = storeNames s"
  "errlog (run_timers t s) = errlog s"
  "lookups (run_timers t s) = lookups s"
  by (simp_all add: run_timers_def)

lemma settle_frame:
  "previousOrders (settle c s) = previousOrders s"
  "notifications (settle c s) = notifications s"
  "orders (settle c s) = orders s"
  "loading (settle c s) = loading s"
  "storeNames (settle c s) = storeNames s"
  "errlog (settle c s) = errlog s"
  "lookups (settle c s) = lookups s"
  by (simp_all add: settle_def fire_due_frame)

lemma poll_previous:
  "previousOrders (poll c s) = (if fetch_ok c then ids c else previousOrders s)"
  by (cases "fetched c")
     (simp_all add: poll_def loadOrders_Inl loadOrders_Inr settle_frame fetch_ok_def ids_def)


lemma count_for_tags:
  "count_for t i s = length (filter (\<lambda>p. p = (t, i)) (map tag (notifications s)))"
  by (simp add: count_for_def filter_map o_def)

lemma count_tag_map:
  "length (filter (\<lambda>p. p = (t, i)) (map (\<lambda>ord. (NewOrder, oid ord)) es)) =
     (if t = NewOrder then length (filter (\<lambda>ord. oid ord = i) es) else 0)"
  by (induction es) auto




lemma forEach_body_bootstrap:
  "notifications (snd (forEach_body c {} names (N, s) ord)) = notifications s"
  by (simp add: forEach_body_def resolve_frame)

lemma foldl_forEach_bootstrap:
  "notifications (snd (foldl (forEach_body c {} names) (N, s) os)) = notifications s"
proof (induction os arbitrary: N s)
  case Nil
  show ?case by simp
next
  case (Cons ord os)
  obtain N1 s1 where st: "forEach_body c {} names (N, s) ord = (N1, s1)"
    by (cases "forEach_body c {} names (N, s) ord")
  have "notifications s1 = notifications s"
    using forEach_body_bootstrap [of c names N s ord] st by simp
  then show ?case using Cons.IH [of N1 s1] st by simp
qed

lemma loadOrders_bootstrap:
  assumes "previousOrders s = {}"
  shows "notifications (loadOrders c s) = notifications s"
proof (cases "fetched c")
  case (Inl e)
  then show ?thesis by (simp add: loadOrders_Inl)
next
  case (Inr os)
  obtain N1 s1 where st: "foldl (forEach_body c {} (storeNames s)) ({}, s) os = (N1, s1)"
    by (cases "foldl (forEach_body c {} (storeNames s)) ({}, s) os")
  have "notifications s1 = notifications s"
    using foldl_forEach_bootstrap [of c "storeNames s" "{}" s os] st by simp
  then show ?thesis using Inr assms st by (simp add: loadOrders_def Let_def)
qed

lemma foldl_resolve_frame:
  "notifications (foldl (\<lambda>s sid. resolve c names sid s) s sids) = notifications s \<and>
   previousOrders (foldl (\<lambda>s sid. resolve c names sid s) s sids) = previousOrders s \<and>
   newOrderIds (foldl (\<lambda>s sid. resolve c names sid s) s sids) = newOrderIds s \<and>
   timers (foldl (\<lambda>s sid. resolve c names sid s) s sids) = timers s \<and>
   loading (foldl (\<lambda>s sid. resolve c names sid s) s sids) = loading s"
  by (induction sids arbitrary: s) (simp_all add: resolve_frame)

lemma fetchOrders_bootstrap:
  assumes "loading s"
  shows "notifications (fetchOrders c s) = notifications s"
  using assms by (cases "fetched c") (simp_all add: fetchOrders_def Let_def foldl_resolve_frame)

section \<open>The outcome of \<^verbatim>\<open>fetchOrders\<close>\<close>

lemma fetchOrders_Inl:
  "fetched c = Inl e \<Longrightarrow> fetchOrders c s = s\<lparr>errlog := errlog s @ [e], loading := False\<rparr>"
  by (simp add: fetchOrders_def)

lemma fetchStoreName_frame:
  "previousOrders (snd (fetchStoreName c sid s)) = previousOrders s"
  "newOrderIds (snd (fetchStoreName c sid s)) = newOrderIds s"
  "timers (snd (fetchStoreName c sid s)) = timers s"
  "notifications (snd (fetchStoreName c sid s)) = notifications s"
  "orders (snd (fetchStoreName c sid s)) = orders s"
  "loading (snd (fetchStoreName c sid s)) = loading s"
  by (simp_all add: fetchStoreName_def Let_def split: lookup.splits)






section \<open>Bootstrap suppression\<close>

text \<open>
  On the first poll cycle after the screen starts no notification is saved, whatever the
  fetched collection holds, by \<^verbatim>\<open>loadOrders\<close> and by \<^verbatim>\<open>fetchOrders\<close>; and
  \<^verbatim>\<open>fetchOrders\<close> marks no identifier as new on that cycle.
\<close>

lemma first_poll_saves_nothing:
  "notifications (poll c (init ns)) = ns \<and> notifications (fetch_poll c (init ns)) = ns"
proof
  have "previousOrders (settle c (init ns)) = {}"
    by (simp add: settle_frame init_def)
  then show "notifications (poll c (init ns)) = ns"
    unfolding poll_def by (simp add: loadOrders_bootstrap settle_frame init_def)
  have "loading (settle c (init ns))"
    by (simp add: settle_frame init_def)
  then show "notifications (fetch_poll c (init ns)) = ns"
    unfolding fetch_poll_def by (simp add: fetchOrders_bootstrap settle_frame init_def)
qed

lemma first_fetch_marks_nothing: "newOrderIds (fetch_poll c (init ns)) = {}"
proof -
  let ?s = "settle c (init ns)"
  have l: "loading ?s" by (simp add: settle_frame init_def)
  have n: "newOrderIds ?s = {}" by (simp add: settle_def fire_due_def init_def)
  show ?thesis
    using l n unfolding fetch_poll_def
    by (cases "fetched c") (simp_all add: fetchOrders_def Let_def foldl_resolve_frame)
qed

text \<open>
  C1. On its very first run over a collection that holds order \<open>A\<close>,
  \<^verbatim>\<open>loadOrders\<close> saves no notification, but it reports \<open>A\<close> as new: the set
  \<^verbatim>\<open>newIds\<close> is \<open>{A}\<close> and becomes the highlight set, because the identifier is
  added before the test of the snapshot size. \<^verbatim>\<open>fetchOrders\<close> reports nothing on
  the same input.
\<close>

theorem first_load_reports_existing_order:
  "newOrderIds (poll (a_poll 0 [an_order ''A'' '''']) (init [])) = {''A''} \<and>
   notifications (poll (a_poll 0 [an_order ''A'' '''']) (init [])) = [] \<and>
   newOrderIds (fetch_poll (a_poll 0 [an_order ''A'' '''']) (init [])) = {}"
  by (simp add: eval_defs sample_defs)












lemma fetch_poll_previous:
  "previousOrders (fetch_poll c s) = (if fetch_ok c then ids c else previousOrders s)"
  by (cases "fetched c")
     (simp_all add: fetch_poll_def fetchOrders_def Let_def settle_frame fetch_ok_def ids_def)










section \<open>One notification per new order\<close>




section \<open>Bootstrap detection\<close>

text \<open>
  C3. In \<^verbatim>\<open>loadOrders\<close> the first poll is recognised by the emptiness of the
  previous snapshot. When the first poll returns the empty collection and the second one
  returns order \<open>O\<close>, no notification is saved for \<open>O\<close>, and \<open>O\<close> is in the
  snapshot from then on.
\<close>

theorem empty_first_poll_loses_order:
  "notifications (run_polls (init []) [a_poll 0 [], a_poll 5000 [an_order ''O'' '''']]) = [] \<and>
   previousOrders (run_polls (init []) [a_poll 0 [], a_poll 5000 [an_order ''O'' '''']]) = {''O''}"
  by (simp add: eval_defs sample_defs)

text \<open>
  \<^verbatim>\<open>fetchOrders\<close> tests the flag \<^verbatim>\<open>loading\<close> instead, and on the same two
  results it saves the notification, provided the callback does not have to await a store
  name: an order of a store that is not yet cached is tested against the snapshot that
  already contains it.
\<close>

lemma fetchOrders_flag_example:
  "map tag (notifications (fetch_poll (a_poll 60000 [an_order ''O'' ''''])
      (fetch_poll (a_poll 0 []) (init [])))) = [(NewOrder, ''O'')]"
  by (simp add: eval_defs sample_defs tag_def)

lemma fetchOrders_deferred_example:
  "map tag (notifications (fetch_poll (a_poll 60000 [an_order ''O'' ''s1''])
      (fetch_poll (a_poll 0 []) (init [])))) = []"
  by (simp add: eval_defs sample_defs tag_def)

section \<open>Highlight expiry\<close>




lemma foldl_fire_others:
  assumes "\<forall>tm \<in> set tms. snd tm \<noteq> ClearAll \<and> snd tm \<noteq> DeleteId i"
  shows "(i \<in> foldl (\<lambda>ids tm. fire (snd tm) ids) X tms) = (i \<in> X)"
  using assms
proof (induction tms arbitrary: X)
  case Nil
  show ?case by simp
next
  case (Cons tm tms)
  have "(i \<in> fire (snd tm) X) = (i \<in> X)"
    using Cons.prems by (cases "snd tm") auto
  then show ?case using Cons.IH [of "fire (snd tm) X"] Cons.prems by simp
qed


































text \<open>
  Inside \<^verbatim>\<open>fetchOrders\<close>, the step that marks one identifier: with no timer for it
  pending, it is fresh exactly until five seconds after the insertion is over.
\<close>

lemma mark_new_window:
  assumes "oid ord \<notin> prev"
    and "\<forall>tm \<in> set (timers s). snd tm \<noteq> ClearAll \<and> snd tm \<noteq> DeleteId (oid ord)"
  shows "isFresh q (mark_new c prev ord s) (oid ord) = (q < now c + insertDelay c + 5000)"
proof -
  let ?i = "oid ord" and ?d = "now c + insertDelay c + 5000"
  let ?due = "filter (\<lambda>tm. fst tm \<le> q) (timers s)"
  have t: "timers (mark_new c prev ord s) = timers s @ [(?d, DeleteId ?i)]"
    using assms(1) by (simp add: mark_new_def Let_def saveNotification_frame)
  have n: "newOrderIds (mark_new c prev ord s) = insert ?i (newOrderIds s)"
    using assms(1) by (simp add: mark_new_def Let_def saveNotification_frame)
  have o: "(?i \<in> foldl (\<lambda>ids tm. fire (snd tm) ids) (insert ?i (newOrderIds s)) ?due) = True"
    using foldl_fire_others [of ?due ?i "insert ?i (newOrderIds s)"] assms(2) by simp
  show ?thesis
    using o by (simp add: isFresh_def run_timers_def t n)
qed


section \<open>Timer callbacks\<close>

text \<open>
  C4. The timer that \<^verbatim>\<open>loadOrders\<close> schedules runs
  \<^verbatim>\<open>setNewOrderIds(new Set())\<close>. The batch \<open>{C}\<close> is marked at 5300 and the batch
  \<open>{D}\<close> at 10100; when the timer of the first batch runs at 10300 the highlight set
  becomes empty, so \<open>D\<close> is removed by a timer that was scheduled for \<open>C\<close>.
\<close>

theorem timer_clears_later_batch:
  "newOrderIds (run_polls (init [])
      [a_poll 0 [an_order ''A'' ''''], a_poll 5300 [an_order ''A'' '''', an_order ''C'' ''''],
       a_poll 10100 [an_order ''A'' '''', an_order ''C'' '''', an_order ''D'' '''']]) = {''D''} \<and>
   timers (run_polls (init [])
      [a_poll 0 [an_order ''A'' ''''], a_poll 5300 [an_order ''A'' '''', an_order ''C'' ''''],
       a_poll 10100 [an_order ''A'' '''', an_order ''C'' '''', an_order ''D'' '''']]) =
     [(10300, ClearAll), (15100, ClearAll)] \<and>
   newOrderIds (run_timers 10300 (run_polls (init [])
      [a_poll 0 [an_order ''A'' ''''], a_poll 5300 [an_order ''A'' '''', an_order ''C'' ''''],
       a_poll 10100 [an_order ''A'' '''', an_order ''C'' '''', an_order ''D'' '''']])) = {}"
  by (simp add: eval_defs sample_defs)

text \<open>
  The timer that \<^verbatim>\<open>fetchOrders\<close> schedules deletes one identifier: on the same
  three results the timer of \<open>C\<close> leaves \<open>D\<close> highlighted.
\<close>

lemma fetchOrders_timer_example:
  "newOrderIds (fetch_poll (a_poll 10100 [an_order ''A'' '''', an_order ''C'' '''', an_order ''D'' ''''])
      (fetch_poll (a_poll 5300 [an_order ''A'' '''', an_order ''C'' ''''])
        (fetch_poll (a_poll 0 [an_order ''A'' '''']) (init [])))) = {''C'', ''D''} \<and>
   newOrderIds (run_timers 10300
     (fetch_poll (a_poll 10100 [an_order ''A'' '''', an_order ''C'' '''', an_order ''D'' ''''])
      (fetch_poll (a_poll 5300 [an_order ''A'' '''', an_order ''C'' ''''])
        (fetch_poll (a_poll 0 [an_order ''A'' '''']) (init []))))) = {''D''}"
  by (auto simp add: eval_defs sample_defs)

section \<open>Cycle isolation on failure\<close>

lemma saveNotification_notifications_cong:
  "notifications s = notifications s' \<Longrightarrow>
   notifications (saveNotification c ord t msg s) = notifications (saveNotification c ord t msg s')"
  by (simp add: saveNotification_def)

lemma forEach_body_notifications_cong:
  assumes "notifications s = notifications s'"
  shows "notifications (snd (forEach_body c prev names (N, s) ord)) =
         notifications (snd (forEach_body c prev names' (N', s') ord))"
  using assms saveNotification_notifications_cong [OF assms]
  by (simp add: forEach_body_def resolve_frame)

lemma foldl_forEach_notifications_cong:
  assumes "notifications s = notifications s'"
  shows "notifications (snd (foldl (forEach_body c prev names) (N, s) os)) =
         notifications (snd (foldl (forEach_body c prev names') (N', s') os))"
  using assms
proof (induction os arbitrary: N N' s s')
  case Nil
  then show ?case by simp
next
  case (Cons ord os)
  obtain N1 s1 where a: "forEach_body c prev names (N, s) ord = (N1, s1)"
    by (cases "forEach_body c prev names (N, s) ord")
  obtain N2 s2 where b: "forEach_body c prev names' (N', s') ord = (N2, s2)"
    by (cases "forEach_body c prev names' (N', s') ord")
  have "notifications s1 = notifications s2"
    using forEach_body_notifications_cong [OF Cons.prems, of c prev names N ord names' N'] a b
    by simp
  then show ?case using Cons.IH [of s1 s2 N1 N2] a b by simp
qed

lemma loadOrders_notifications_cong:
  assumes "notifications s = notifications s'" "previousOrders s = previousOrders s'"
  shows "notifications (loadOrders c s) = notifications (loadOrders c s')"
proof (cases "fetched c")
  case (Inl e)
  with assms show ?thesis by (simp add: loadOrders_Inl)
next
  case (Inr os)
  obtain N1 s1 where a:
    "foldl (forEach_body c (previousOrders s) (storeNames s)) ({}, s) os = (N1, s1)"
    by (cases "foldl (forEach_body c (previousOrders s) (storeNames s)) ({}, s) os")
  obtain N2 s2 where b:
    "foldl (forEach_body c (previousOrders s) (storeNames s')) ({}, s') os = (N2, s2)"
    by (cases "foldl (forEach_body c (previousOrders s) (storeNames s')) ({}, s') os")
  have "notifications s1 = notifications s2"
    using foldl_forEach_notifications_cong [OF assms(1), of c "previousOrders s" "storeNames s"
        "{}" os "storeNames s'" "{}"] a b by simp
  then show ?thesis using Inr assms(2) a b by (simp add: loadOrders_def Let_def)
qed

lemma mark_new_notifications_cong:
  "notifications s = notifications s' \<Longrightarrow>
   notifications (mark_new c prev ord s) = notifications (mark_new c prev ord s')"
  by (simp add: mark_new_def Let_def saveNotification_def)

lemma handle_change_notifications_cong:
  assumes "notifications s = notifications s'"
  shows "notifications (handle_change c prevOld prevNew names s ch) =
         notifications (handle_change c prevOld prevNew names s' ch)"
proof -
  have a: "notifications (mark_new c prevOld ord s) = notifications (mark_new c prevOld ord s')"
    for ord using assms by (rule mark_new_notifications_cong)
  have b: "notifications (mark_new c prevNew ord (snd (fetchStoreName c sid s))) =
      notifications (mark_new c prevNew ord (snd (fetchStoreName c sid s')))" for ord sid
    using assms by (intro mark_new_notifications_cong) (simp add: fetchStoreName_frame)
  obtain ty ord where ch: "ch = (ty, ord)" by (cases ch)
  show ?thesis
  proof (cases "ty = added")
    case False
    then show ?thesis using assms by (simp add: handle_change_def ch)
  next
    case True
    show ?thesis
    proof (cases "storeId ord \<noteq> [] \<and> cache_miss names (storeId ord)")
      case True
      then show ?thesis
        using \<open>ty = added\<close> b [of ord "storeId ord"] by (simp add: handle_change_def ch)
    next
      case False
      then show ?thesis
        using \<open>ty = added\<close> a [of ord] by (auto simp add: handle_change_def ch)
    qed
  qed
qed

lemma foldl_handle_change_notifications_cong:
  assumes "notifications s = notifications s'"
  shows "notifications (foldl (handle_change c prevOld prevNew names) s chs) =
         notifications (foldl (handle_change c prevOld prevNew names) s' chs)"
  using assms
proof (induction chs arbitrary: s s')
  case Nil
  then show ?case by simp
next
  case (Cons ch chs)
  have "notifications (handle_change c prevOld prevNew names s ch) =
      notifications (handle_change c prevOld prevNew names s' ch)"
    using Cons.prems by (rule handle_change_notifications_cong)
  then have "notifications (foldl (handle_change c prevOld prevNew names)
        (handle_change c prevOld prevNew names s ch) chs) =
      notifications (foldl (handle_change c prevOld prevNew names)
        (handle_change c prevOld prevNew names s' ch) chs)"
    by (rule Cons.IH)
  then show ?case by simp
qed

lemma fetchOrders_notifications_cong:
  assumes "notifications s = notifications s'" "previousOrders s = previousOrders s'"
    and "loading s = loading s'" "storeNames s = storeNames s'"
  shows "notifications (fetchOrders c s) = notifications (fetchOrders c s')"
proof (cases "fetched c")
  case (Inl e)
  with assms show ?thesis by (simp add: fetchOrders_Inl)
next
  case (Inr os)
  let ?r = "\<lambda>s. foldl (\<lambda>s' sid. resolve c (storeNames s) sid s') s (uniq (map storeId os))"
  have r: "notifications (?r s) = notifications (?r s')"
    using assms(1) by (simp add: foldl_resolve_frame)
  have h: "notifications (foldl (handle_change c (previousOrders s) (set (map oid os))
        (storeNames s)) (?r s) (docChanges c)) =
      notifications (foldl (handle_change c (previousOrders s) (set (map oid os))
        (storeNames s)) (?r s') (docChanges c))"
    using r by (rule foldl_handle_change_notifications_cong)
  show ?thesis
  proof (cases "loading s")
    case True
    then show ?thesis using Inr assms r by (simp add: fetchOrders_def Let_def)
  next
    case False
    then show ?thesis using Inr assms h by (simp add: fetchOrders_def Let_def)
  qed
qed

text \<open>
  When the query of a poll cycle fails, the cycle logs the error and clears
  \<^verbatim>\<open>loading\<close>: the snapshot, the notification collection, the order list and the
  store names after the cycle are those before it, and no timer is set, in
  \<^verbatim>\<open>loadOrders\<close> and in \<^verbatim>\<open>fetchOrders\<close>.
\<close>

lemma failed_cycle_state:
  assumes "fetched c = Inl e"
  shows "previousOrders (poll c s) = previousOrders s \<and>
         notifications (poll c s) = notifications s \<and>
         orders (poll c s) = orders s \<and>
         storeNames (poll c s) = storeNames s \<and>
         lookups (poll c s) = lookups s \<and>
         newOrderIds (poll c s) = newOrderIds (settle c s) \<and>
         timers (poll c s) = timers (settle c s) \<and>
         errlog (poll c s) = errlog s @ [e] \<and>
         previousOrders (fetch_poll c s) = previousOrders s \<and>
         notifications (fetch_poll c s) = notifications s \<and>
         orders (fetch_poll c s) = orders s \<and>
         storeNames (fetch_poll c s) = storeNames s \<and>
         lookups (fetch_poll c s) = lookups s \<and>
         newOrderIds (fetch_poll c s) = newOrderIds (settle c s) \<and>
         timers (fetch_poll c s) = timers (settle c s) \<and>
         errlog (fetch_poll c s) = errlog s @ [e] \<and>
         \<not> loading (fetch_poll c s)"
  using assms by (simp add: poll_def fetch_poll_def loadOrders_Inl fetchOrders_Inl settle_frame)

text \<open>
  In \<^verbatim>\<open>loadOrders\<close> the failed cycle is isolated: the next cycle yields the snapshot
  and the notifications it would have yielded had the failed cycle not taken place, and it
  is called by the interval, one period after the failed one.
\<close>

lemma failed_load_isolated:
  assumes "fetched c = Inl e"
  shows "previousOrders (poll c' (poll c s)) = previousOrders (poll c' s) \<and>
         notifications (poll c' (poll c s)) = notifications (poll c' s) \<and>
         next_loadOrders tick c s = tick + 5000"
proof -
  have p: "poll c s = (settle c s)\<lparr>errlog := errlog s @ [e], loading := False\<rparr>"
    using assms by (simp add: poll_def loadOrders_Inl settle_frame)
  have n: "notifications (poll c' (poll c s)) = notifications (poll c' s)"
    unfolding poll_def [of c']
    by (rule loadOrders_notifications_cong) (simp_all add: settle_frame p)
  have q: "previousOrders (poll c' (poll c s)) = previousOrders (poll c' s)"
    by (simp add: poll_previous p settle_frame)
  have t: "next_loadOrders tick c s = tick + 5000"
    by (simp add: next_loadOrders_def names_set_def Let_def p settle_frame)
  show ?thesis using n q t by simp
qed

text \<open>
  So is a failed cycle of \<^verbatim>\<open>fetchOrders\<close> that is not the first one, that is when
  \<^verbatim>\<open>loading\<close> has been cleared before.
\<close>

lemma failed_later_fetch_isolated:
  assumes "fetched c = Inl e" "\<not> loading s"
  shows "previousOrders (fetch_poll c' (fetch_poll c s)) = previousOrders (fetch_poll c' s) \<and>
         notifications (fetch_poll c' (fetch_poll c s)) = notifications (fetch_poll c' s) \<and>
         next_fetchOrders tick c s = tick + 60000"
proof -
  have p: "fetch_poll c s = (settle c s)\<lparr>errlog := errlog s @ [e], loading := False\<rparr>"
    using assms by (simp add: fetch_poll_def fetchOrders_Inl settle_frame)
  have n: "notifications (fetch_poll c' (fetch_poll c s)) = notifications (fetch_poll c' s)"
    unfolding fetch_poll_def [of c']
    using assms(2) by (intro fetchOrders_notifications_cong) (simp_all add: settle_frame p)
  have q: "previousOrders (fetch_poll c' (fetch_poll c s)) = previousOrders (fetch_poll c' s)"
    by (simp add: fetch_poll_previous p settle_frame)
  have t: "next_fetchOrders tick c s = tick + 60000"
    using assms(2) by (simp add: next_fetchOrders_def names_set_def Let_def p settle_frame)
  show ?thesis using n q t by simp
qed

text \<open>
  C7. In \<^verbatim>\<open>fetchOrders\<close> a failed first cycle is not abandoned without trace. The
  snapshot is left as it was, but the \<^verbatim>\<open>finally\<close> block clears \<^verbatim>\<open>loading\<close>,
  which is both the flag of the initial load and a dependency of the callback. With the
  first query failing 300 ms after the start, the callback is rebuilt and called again at
  once, at 300 instead of 60000; and that next cycle, no longer taken for the initial load,
  saves a notification for order \<open>A\<close>, which was there from the start, whereas without
  the failed cycle it saves none.
\<close>

theorem failed_first_fetch_not_isolated:
  "previousOrders (fetch_poll (a_failed_poll 300) (init [])) = previousOrders (init []) \<and>
   loading (init []) \<and>
   \<not> loading (fetch_poll (a_failed_poll 300) (init [])) \<and>
   next_fetchOrders 0 (a_failed_poll 300) (init []) = 300 \<and>
   map tag (notifications (fetch_poll (a_poll 600 [an_order ''A'' ''''])
      (fetch_poll (a_failed_poll 300) (init [])))) = [(NewOrder, ''A'')] \<and>
   notifications (fetch_poll (a_poll 600 [an_order ''A'' '''']) (init [])) = []"
  by (simp add: next_fetchOrders_def names_set_def eval_defs sample_defs tag_def)


section \<open>Store name resolution\<close>

text \<open>
  \<^verbatim>\<open>fetchStoreName\<close> issues exactly one look-up. When the store is found, its
  name is in the cache and is the result. When the store is not found or the look-up
  fails, the result is \<^verbatim>\<open>null\<close> and the cache is unchanged, so the guarded call of
  the callers, which runs \<^verbatim>\<open>fetchStoreName\<close> exactly when their test
  \<^verbatim>\<open>!storeNames[storeId]\<close> holds, looks the same identifier up again the next
  time and caches the name once it is found.
\<close>

lemma store_name_resolution:
  "lookups (snd (fetchStoreName c sid s)) = lookups s @ [sid] \<and>
   (getDoc c sid = Found n \<longrightarrow>
      fst (fetchStoreName c sid s) = Some n \<and>
      storeNames (snd (fetchStoreName c sid s)) = (storeNames s)(sid \<mapsto> n)) \<and>
   ((\<forall>m. getDoc c sid \<noteq> Found m) \<longrightarrow>
      fst (fetchStoreName c sid s) = None \<and>
      storeNames (snd (fetchStoreName c sid s)) = storeNames s) \<and>
   (sid \<noteq> [] \<and> cache_miss names sid \<longrightarrow>
      resolve c names sid s = snd (fetchStoreName c sid s)) \<and>
   (\<not> cache_miss names sid \<longrightarrow> resolve c names sid s = s) \<and>
   (sid \<noteq> [] \<and> cache_miss (storeNames s) sid \<and> (\<forall>m. getDoc c sid \<noteq> Found m) \<longrightarrow>
      lookups (resolve c' (storeNames (snd (fetchStoreName c sid s))) sid
                 (snd (fetchStoreName c sid s))) = lookups s @ [sid, sid] \<and>
      (getDoc c' sid = Found n \<longrightarrow>
         storeNames (resolve c' (storeNames (snd (fetchStoreName c sid s))) sid
                 (snd (fetchStoreName c sid s))) sid = Some n))"
proof -
  have miss: "(\<forall>m. getDoc c sid \<noteq> Found m) \<Longrightarrow>
      fst (fetchStoreName c sid s) = None \<and>
      storeNames (snd (fetchStoreName c sid s)) = storeNames s \<and>
      lookups (snd (fetchStoreName c sid s)) = lookups s @ [sid]"
    by (cases "getDoc c sid") (simp_all add: fetchStoreName_def Let_def)
  have one: "\<And>c s. lookups (snd (fetchStoreName c sid s)) = lookups s @ [sid]"
    by (simp add: fetchStoreName_def Let_def split: lookup.splits)
  have hit: "\<And>c s. getDoc c sid = Found n \<Longrightarrow>
      fst (fetchStoreName c sid s) = Some n \<and>
      storeNames (snd (fetchStoreName c sid s)) = (storeNames s)(sid \<mapsto> n)"
    by (simp add: fetchStoreName_def Let_def)
  show ?thesis
    using miss one hit by (simp add: resolve_def)
qed

lemma store_name_resolution_example:
  "lookups (snd (fetchStoreName (a_poll 0 []) ''s1'' (init []))) = [''s1''] \<and>
   fst (fetchStoreName (a_poll 0 []) ''s1'' (init [])) = None \<and>
   storeNames (snd (fetchStoreName (a_poll 0 []) ''s1'' (init []))) ''s1'' = None \<and>
   lookups (resolve ((a_poll 5000 [])\<lparr>getDoc := (\<lambda>sid. Found ''Fresh Mart'')\<rparr>)
              (storeNames (snd (fetchStoreName (a_poll 0 []) ''s1'' (init [])))) ''s1''
              (snd (fetchStoreName (a_poll 0 []) ''s1'' (init [])))) = [''s1'', ''s1''] \<and>
   storeNames (resolve ((a_poll 5000 [])\<lparr>getDoc := (\<lambda>sid. Found ''Fresh Mart'')\<rparr>)
              (storeNames (snd (fetchStoreName (a_poll 0 []) ''s1'' (init [])))) ''s1''
              (snd (fetchStoreName (a_poll 0 []) ''s1'' (init [])))) ''s1'' = Some ''Fresh Mart''"
proof -
  let ?c = "a_poll 0 []" and ?c' = "(a_poll 5000 [])\<lparr>getDoc := (\<lambda>sid. Found ''Fresh Mart'')\<rparr>"
  let ?s1 = "snd (fetchStoreName ?c ''s1'' (init []))"
  have h1: "\<forall>m. getDoc ?c ''s1'' \<noteq> Found m" by (simp add: sample_defs)
  have h2: "''s1'' \<noteq> [] \<and> cache_miss (storeNames (init [])) ''s1''"
    by (simp add: cache_miss_def object_keys_def init_def)
  have h3: "getDoc ?c' ''s1'' = Found ''Fresh Mart''" by (simp add: sample_defs)
  have h4: "lookups (init []) = []" "storeNames (init []) ''s1'' = None" by (simp_all add: init_def)
  note T = store_name_resolution [of ?c "''s1''" "init []" "''Fresh Mart''" "storeNames (init [])" ?c']
  have a: "lookups ?s1 = lookups (init []) @ [''s1'']" using T by blast
  have b: "fst (fetchStoreName ?c ''s1'' (init [])) = None \<and> storeNames ?s1 = storeNames (init [])"
    using T h1 by blast
  have d: "lookups (resolve ?c' (storeNames ?s1) ''s1'' ?s1) = lookups (init []) @ [''s1'', ''s1''] \<and>
      storeNames (resolve ?c' (storeNames ?s1) ''s1'' ?s1) ''s1'' = Some ''Fresh Mart''"
    using T h1 h2 h3 by blast
  show ?thesis
    using a b d h4 by simp
qed

text \<open>
  C8. The test of the callers reads \<^verbatim>\<open>storeNames\<close>, a plain object, so for a store
  identifier that is a key of \<^verbatim>\<open>Object.prototype\<close> it finds an inherited value
  and takes the identifier for cached. With an empty cache and an order of the store
  \<^verbatim>\<open>constructor\<close>, whose record exists, a cycle of \<^verbatim>\<open>loadOrders\<close> and a
  cycle of \<^verbatim>\<open>fetchOrders\<close> issue no look-up and cache no name, now and in the
  cycles after; for the store \<^verbatim>\<open>s1\<close> the same cycle issues the look-up and caches
  the name.
\<close>

theorem inherited_key_not_resolved:
  "storeNames (init []) ''constructor'' = None \<and>
   lookups (run_polls (init [])
      [(a_poll 0 [an_order ''A'' ''constructor''])\<lparr>getDoc := (\<lambda>sid. Found ''Fresh Mart'')\<rparr>,
       (a_poll 5000 [an_order ''A'' ''constructor''])\<lparr>getDoc := (\<lambda>sid. Found ''Fresh Mart'')\<rparr>]) = [] \<and>
   storeNames (run_polls (init [])
      [(a_poll 0 [an_order ''A'' ''constructor''])\<lparr>getDoc := (\<lambda>sid. Found ''Fresh Mart'')\<rparr>,
       (a_poll 5000 [an_order ''A'' ''constructor''])\<lparr>getDoc := (\<lambda>sid. Found ''Fresh Mart'')\<rparr>])
      ''constructor'' = None \<and>
   lookups (run_fetch_polls (init [])
      [(a_poll 0 [an_order ''A'' ''constructor''])\<lparr>getDoc := (\<lambda>sid. Found ''Fresh Mart'')\<rparr>,
       (a_poll 60000 [an_order ''A'' ''constructor''])\<lparr>getDoc := (\<lambda>sid. Found ''Fresh Mart'')\<rparr>]) = [] \<and>
   lookups (poll ((a_poll 0 [an_order ''A'' ''s1''])\<lparr>getDoc := (\<lambda>sid. Found ''Fresh Mart'')\<rparr>)
      (init [])) = [''s1''] \<and>
   storeNames (poll ((a_poll 0 [an_order ''A'' ''s1''])\<lparr>getDoc := (\<lambda>sid. Found ''Fresh Mart'')\<rparr>)
      (init [])) ''s1'' = Some ''Fresh Mart''"
  by (simp add: run_fetch_polls_def eval_defs sample_defs)

section \<open>Status and payment notifications\<close>

lemma saveNotification_count:
  "count_for t i (saveNotification c ord t' msg s) =
     count_for t i s + (if t' = t \<and> oid ord = i \<and> addDocOk c i then 1 else 0)"
  by (auto simp: saveNotification_def count_for_def tag_def)

lemma count_for_cong:
  "notifications s = notifications s' \<Longrightarrow> count_for t i s = count_for t i s'"
  by (simp add: count_for_def)

lemma loadOrders_count_other:
  assumes "t \<noteq> NewOrder"
  shows "count_for t i (loadOrders c s) = count_for t i s"
proof (cases "fetched c")
  case (Inl e)
  then show ?thesis by (simp add: loadOrders_Inl count_for_def)
next
  case (Inr os)
  show ?thesis
    unfolding count_for_tags loadOrders_Inr(2) [OF Inr]
    using assms count_tag_map [of t i "emitted c (previousOrders s) os"] by simp
qed

lemma resolve_count: "count_for t i (resolve c names sid s) = count_for t i s"
  by (simp add: count_for_def resolve_frame)

lemma mark_new_count_other:
  "t \<noteq> NewOrder \<Longrightarrow> count_for t i (mark_new c prev ord s) = count_for t i s"
  by (simp add: mark_new_def Let_def count_for_def saveNotification_def tag_def)

lemma handle_change_count_other:
  assumes "t \<noteq> NewOrder"
  shows "count_for t i (handle_change c prevOld prevNew names s ch) = count_for t i s"
proof -
  have "count_for t i (snd (fetchStoreName c sid s)) = count_for t i s" for sid
    by (simp add: count_for_def fetchStoreName_def Let_def split: lookup.splits)
  then show ?thesis
    using assms by (cases ch) (simp add: handle_change_def mark_new_count_other)
qed

lemma foldl_handle_change_count_other:
  assumes "t \<noteq> NewOrder"
  shows "count_for t i (foldl (handle_change c prevOld prevNew names) s chs) = count_for t i s"
  using assms by (induction chs arbitrary: s) (simp_all add: handle_change_count_other)

lemma foldl_resolve_count:
  "count_for t i (foldl (\<lambda>s sid. resolve c names sid s) s sids) = count_for t i s"
  by (simp add: count_for_def foldl_resolve_frame)

lemma fetchOrders_count_other:
  assumes "t \<noteq> NewOrder"
  shows "count_for t i (fetchOrders c s) = count_for t i s"
proof (cases "fetched c")
  case (Inl e)
  then show ?thesis by (simp add: fetchOrders_Inl count_for_def)
next
  case (Inr os)
  let ?s1 = "foldl (\<lambda>s sid. resolve c (storeNames s) sid s) s (uniq (map storeId os))"
  have a: "count_for t i (foldl (\<lambda>s' sid. resolve c (storeNames s) sid s') s (uniq (map storeId os))) =
      count_for t i s"
    by (rule foldl_resolve_count)
  show ?thesis
    using Inr a foldl_handle_change_count_other [OF assms]
    by (simp add: fetchOrders_def Let_def count_for_def)
qed

lemma polling_saves_only_new_order:
  assumes "t \<noteq> NewOrder"
  shows "count_for t i (poll c s) = count_for t i s \<and>
         count_for t i (fetch_poll c s) = count_for t i s"
proof -
  have "count_for t i (settle c s) = count_for t i s"
    by (simp add: count_for_def settle_frame)
  then show ?thesis
    using assms
    by (simp add: poll_def fetch_poll_def loadOrders_count_other fetchOrders_count_other)
qed

lemma find_oid: "find (\<lambda>o'. oid o' = i) os = Some uo \<Longrightarrow> oid uo = i"
  by (induction os) (auto split: if_splits)

lemma handleStatusUpdate_saves_one:
  assumes "online" "i \<in> set (map oid db)" "find (\<lambda>o'. oid o' = i) (orders s) = Some uo"
    and "addDocOk c i"
  shows "count_for StatusUpdate i (snd (handleStatusUpdate online c i v (db, s))) =
           count_for StatusUpdate i s + 1 \<and>
         count_for PaymentUpdate i (snd (handlePaymentStatusUpdate online c i v (db, s))) =
           count_for PaymentUpdate i s + 1"
  using assms find_oid [OF assms(3)]
  by (simp add: handleStatusUpdate_def handlePaymentStatusUpdate_def updateDoc_order_def
      loadOrders_count_other saveNotification_count)

text \<open>
  C6. In the version that polls with \<^verbatim>\<open>fetchOrders\<close>, a successful status or
  payment transition writes the order and saves no notification: order \<open>A\<close> goes from
  \<open>pending\<close> to \<open>confirmed\<close> (and to \<open>paid\<close>), the state of the screen is the one
  before, and the notification collection is still empty. The handlers of the other
  version save exactly one notification per successful transition of an order they hold
  (\<open>handleStatusUpdate_saves_one\<close>), and polling saves notifications of type
  \<open>new_order\<close> only (\<open>polling_saves_only_new_order\<close>).
\<close>

theorem delivery_status_update_saves_nothing:
  "updateDeliveryStatus True ''A'' ''confirmed''
      ([an_order ''A'' ''''], fetch_poll (a_poll 0 [an_order ''A'' '''']) (init [])) =
     ([(an_order ''A'' '''')\<lparr>status := ''confirmed''\<rparr>],
      fetch_poll (a_poll 0 [an_order ''A'' '''']) (init [])) \<and>
   updatePaymentStatus True ''A'' ''paid''
      ([an_order ''A'' ''''], fetch_poll (a_poll 0 [an_order ''A'' '''']) (init [])) =
     ([(an_order ''A'' '''')\<lparr>paymentStatus := ''paid''\<rparr>],
      fetch_poll (a_poll 0 [an_order ''A'' '''']) (init [])) \<and>
   notifications (fetch_poll (a_poll 0 [an_order ''A'' '''']) (init [])) = []"
proof -
  have "oid (an_order ''A'' '''') = ''A''" by (simp add: sample_defs)
  moreover have "notifications (fetch_poll (a_poll 0 [an_order ''A'' '''']) (init [])) = []"
    by (simp add: eval_defs sample_defs)
  ultimately show ?thesis
    by (simp add: updateDeliveryStatus_def updatePaymentStatus_def updateDoc_order_def)
qed

lemma handleStatusUpdate_example:
  "map tag (notifications (snd (handleStatusUpdate True
      (a_poll 7000 [(an_order ''A'' '''')\<lparr>status := ''confirmed''\<rparr>]) ''A'' ''confirmed''
      ([an_order ''A'' ''''], poll (a_poll 0 [an_order ''A'' '''']) (init []))))) =
     [(StatusUpdate, ''A'')]"
  by (simp add: handleStatusUpdate_def updateDoc_order_def eval_defs sample_defs tag_def)

section \<open>Read state of notifications\<close>

lemma keeps_read_refl: "keeps_read ns ns"
  by (simp add: keeps_read_def)

lemma keeps_read_eq: "ns' = ns \<Longrightarrow> keeps_read ns ns'"
  by (simp add: keeps_read_def)

lemma keeps_read_trans: "keeps_read a b \<Longrightarrow> keeps_read b c \<Longrightarrow> keeps_read a c"
  unfolding keeps_read_def by (metis (no_types, lifting) le_trans less_le_trans)

lemma keeps_read_append: "keeps_read ns (ns @ zs)"
  by (simp add: keeps_read_def nth_append)

lemma keeps_read_mark:
  "keeps_read ns (map (\<lambda>n. if nid n = i then n\<lparr>read := True\<rparr> else n) ns)"
  by (simp add: keeps_read_def)

lemma saveNotification_keeps:
  "keeps_read (notifications s) (notifications (saveNotification c ord t msg s))"
  by (simp add: saveNotification_def keeps_read_append keeps_read_refl)

lemma forEach_body_keeps:
  "keeps_read (notifications s) (notifications (snd (forEach_body c prev names (N, s) ord)))"
  by (simp add: forEach_body_def resolve_frame saveNotification_keeps keeps_read_refl)

lemma foldl_forEach_keeps:
  "keeps_read (notifications s)
     (notifications (snd (foldl (forEach_body c prev names) (N, s) os)))"
proof (induction os arbitrary: N s)
  case Nil
  show ?case by (simp add: keeps_read_refl)
next
  case (Cons ord os)
  obtain N1 s1 where st: "forEach_body c prev names (N, s) ord = (N1, s1)"
    by (cases "forEach_body c prev names (N, s) ord")
  have "keeps_read (notifications s) (notifications s1)"
    using forEach_body_keeps [of s c prev names N ord] st by simp
  then show ?case
    using Cons.IH [of s1 N1] st keeps_read_trans by fastforce
qed

lemma loadOrders_keeps: "keeps_read (notifications s) (notifications (loadOrders c s))"
proof (cases "fetched c")
  case (Inl e)
  then show ?thesis by (simp add: loadOrders_Inl keeps_read_refl)
next
  case (Inr os)
  obtain N1 s1 where st:
    "foldl (forEach_body c (previousOrders s) (storeNames s)) ({}, s) os = (N1, s1)"
    by (cases "foldl (forEach_body c (previousOrders s) (storeNames s)) ({}, s) os")
  have "keeps_read (notifications s) (notifications s1)"
    using foldl_forEach_keeps [of s c "previousOrders s" "storeNames s" "{}" os] st by simp
  then show ?thesis using Inr st by (simp add: loadOrders_def Let_def)
qed

lemma mark_new_keeps: "keeps_read (notifications s) (notifications (mark_new c prev ord s))"
proof -
  have "notifications (s\<lparr>newOrderIds := X\<rparr>) = notifications s" for X by simp
  then show ?thesis
    using saveNotification_keeps [of "s\<lparr>newOrderIds := insert (oid ord) (newOrderIds s)\<rparr>" c ord]
    by (simp add: mark_new_def Let_def keeps_read_refl)
qed

lemma handle_change_keeps:
  "keeps_read (notifications s) (notifications (handle_change c prevOld prevNew names s ch))"
proof -
  have "notifications (snd (fetchStoreName c sid s)) = notifications s" for sid
    by (simp add: fetchStoreName_def Let_def split: lookup.splits)
  then show ?thesis
    using mark_new_keeps [of "snd (fetchStoreName c (storeId (snd ch)) s)" c prevNew "snd ch"]
      mark_new_keeps [of s c prevOld "snd ch"]
    by (cases ch) (simp add: handle_change_def keeps_read_refl)
qed

lemma foldl_handle_change_keeps:
  "keeps_read (notifications s)
     (notifications (foldl (handle_change c prevOld prevNew names) s chs))"
proof (induction chs arbitrary: s)
  case Nil
  show ?case by (simp add: keeps_read_refl)
next
  case (Cons ch chs)
  show ?case
    using handle_change_keeps [of s c prevOld prevNew names ch]
      Cons.IH [of "handle_change c prevOld prevNew names s ch"] keeps_read_trans
    by fastforce
qed

lemma fetchOrders_keeps: "keeps_read (notifications s) (notifications (fetchOrders c s))"
proof (cases "fetched c")
  case (Inl e)
  then show ?thesis by (simp add: fetchOrders_Inl keeps_read_refl)
next
  case (Inr os)
  let ?s1 = "foldl (\<lambda>s' sid. resolve c (storeNames s) sid s') s (uniq (map storeId os))"
  have a: "notifications ?s1 = notifications s" by (simp add: foldl_resolve_frame)
  show ?thesis
    using Inr a foldl_handle_change_keeps [of ?s1 c "previousOrders s" "set (map oid os)"
        "storeNames s" "docChanges c"]
    by (simp add: fetchOrders_def Let_def keeps_read_refl)
qed

lemma markAsRead_keeps: "keeps_read db (snd (markAsRead online i (log, db)))"
  by (simp add: markAsRead_def updateDoc_read_def keeps_read_mark keeps_read_refl)

lemma handleNotificationClick_keeps:
  "keeps_read db (snd (handleNotificationClick online n (log, db)))"
  by (simp add: handleNotificationClick_def markAsRead_keeps keeps_read_refl)

lemma handlers_keep:
  "keeps_read (notifications s) (notifications (snd (handleStatusUpdate online c i v (db, s))))"
  "keeps_read (notifications s) (notifications (snd (handlePaymentStatusUpdate online c i v (db, s))))"
  "keeps_read (notifications s) (notifications (snd (updateDeliveryStatus online i v (db, s))))"
  "keeps_read (notifications s) (notifications (snd (updatePaymentStatus online i v (db, s))))"
proof -
  have k: "keeps_read (notifications s) (notifications (loadOrders c (saveNotification c uo t msg s)))"
    for uo t msg
    using saveNotification_keeps loadOrders_keeps keeps_read_trans by blast
  show "keeps_read (notifications s) (notifications (snd (handleStatusUpdate online c i v (db, s))))"
    using k loadOrders_keeps
    by (simp add: handleStatusUpdate_def keeps_read_refl split: sum.splits option.splits)
  show "keeps_read (notifications s) (notifications (snd (handlePaymentStatusUpdate online c i v (db, s))))"
    using k loadOrders_keeps
    by (simp add: handlePaymentStatusUpdate_def keeps_read_refl split: sum.splits option.splits)
  show "keeps_read (notifications s) (notifications (snd (updateDeliveryStatus online i v (db, s))))"
    by (simp add: updateDeliveryStatus_def keeps_read_refl split: sum.splits)
  show "keeps_read (notifications s) (notifications (snd (updatePaymentStatus online i v (db, s))))"
    by (simp add: updatePaymentStatus_def keeps_read_refl split: sum.splits)
qed

lemma step_keeps:
  "keeps_read (notifications (snd w)) (notifications (snd (step a w)))"
proof (cases w)
  case (Pair db s)
  show ?thesis
  proof (cases a)
    case (Poll c)
    then show ?thesis
      using Pair loadOrders_keeps [of "settle c s" c]
      by (simp add: poll_def settle_frame)
  next
    case (FetchPoll c)
    then show ?thesis
      using Pair fetchOrders_keeps [of "settle c s" c]
      by (simp add: fetch_poll_def settle_frame)
  next
    case (MarkRead online i)
    then show ?thesis
      using Pair markAsRead_keeps [of "notifications s" online i "errlog s"]
      by (auto split: prod.splits)
  next
    case (Click online n)
    then show ?thesis
      using Pair handleNotificationClick_keeps [of "notifications s" online n "errlog s"]
      by (auto split: prod.splits)
  next
    case (SetStatus online c i v)
    then show ?thesis
      using Pair handlers_keep(1) [of "settle c s" online c i v db]
      by (simp add: settle_frame)
  next
    case (SetPayment online c i v)
    then show ?thesis
      using Pair handlers_keep(2) [of "settle c s" online c i v db]
      by (simp add: settle_frame)
  qed (simp_all add: Pair handlers_keep settle_frame run_timers_frame keeps_read_refl)
qed

lemma run_keeps: "keeps_read (notifications (snd w)) (notifications (snd (run w as)))"
proof (induction as arbitrary: w)
  case Nil
  show ?case by (simp add: run_def keeps_read_refl)
next
  case (Cons a as)
  have "run w (a # as) = run (step a w) as" by (simp add: run_def)
  then show ?case
    using step_keeps [of w a] Cons.IH [of "step a w"] keeps_read_trans by fastforce
qed

lemma markAsRead_ok:
  "i \<in> set (map nid db) \<Longrightarrow>
   markAsRead True i (log, db) = (log, map (\<lambda>n. if nid n = i then n\<lparr>read := True\<rparr> else n) db)"
  by (simp add: markAsRead_def updateDoc_read_def)

lemma mark_twice:
  "map (\<lambda>n. if nid n = i then n\<lparr>read := True\<rparr> else n)
     (map (\<lambda>n. if nid n = i then n\<lparr>read := True\<rparr> else n) db) =
   map (\<lambda>n. if nid n = i then n\<lparr>read := True\<rparr> else n) db"
  by (induction db) auto

lemma read_transitions_map:
  "read_transitions db (map f db) = length (filter (\<lambda>a. read a \<noteq> read (f a)) db)"
  by (induction db) (simp_all add: read_transitions_def)

lemma read_transitions_same: "read_transitions xs xs = 0"
  by (induction xs) (simp_all add: read_transitions_def)

lemma filter_nid_distinct:
  "distinct (map nid db) \<Longrightarrow> n \<in> set db \<Longrightarrow> filter (\<lambda>a. nid a = nid n) db = [n]"
proof (induction db)
  case Nil
  then show ?case by simp
next
  case (Cons a db)
  show ?case
  proof (cases "a = n")
    case True
    then have "nid n \<notin> nid ` set db" using Cons.prems(1) by simp
    then have "\<forall>a \<in> set db. nid a \<noteq> nid n" by (metis imageI)
    then have "filter (\<lambda>a. nid a = nid n) db = []"
      by (simp add: filter_empty_conv)
    with True show ?thesis by simp
  next
    case False
    then have n: "n \<in> set db" using Cons.prems(2) by simp
    then have "nid a \<noteq> nid n" using Cons.prems(1) by force
    then show ?thesis using Cons.IH n Cons.prems(1) by simp
  qed
qed

lemma unread_split:
  "length (filter (\<lambda>a. \<not> read a) db) =
     length (filter (\<lambda>a. \<not> read (if nid a = i then a\<lparr>read := True\<rparr> else a)) db) +
     length (filter (\<lambda>a. nid a = i \<and> \<not> read a) db)"
  by (induction db) auto

text \<open>
  C9. Let the identifiers of the collection be distinct and let \<open>n\<close> be the record
  with identifier \<open>i\<close>. \<^verbatim>\<open>markAsRead\<close> on \<open>i\<close> logs no error and changes
  nothing but the read flag of \<open>n\<close>, which it sets; calling it a second time changes
  nothing more. When \<open>n\<close> was unread, the first call is one read-state transition, the
  second is none, and the number of unread records goes down by exactly one. When
  \<open>n\<close> was already read the call leaves the log and the collection as they are. No
  sequence of operations of the two screens removes a record or turns a read record
  back to unread.
\<close>

theorem markAsRead_idempotent:
  assumes "distinct (map nid db)" "n \<in> set db" "nid n = i"
  shows "fst (markAsRead True i (log, db)) = log \<and>
         length (snd (markAsRead True i (log, db))) = length db \<and>
         (\<forall>k < length db. snd (markAsRead True i (log, db)) ! k =
             (if db ! k = n then n\<lparr>read := True\<rparr> else db ! k)) \<and>
         markAsRead True i (markAsRead True i (log, db)) = markAsRead True i (log, db) \<and>
         (\<not> read n \<longrightarrow>
            read_transitions db (snd (markAsRead True i (log, db))) = 1 \<and>
            read_transitions (snd (markAsRead True i (log, db)))
              (snd (markAsRead True i (markAsRead True i (log, db)))) = 0 \<and>
            unreadCount (snd (markAsRead True i (log, db))) + 1 = unreadCount db) \<and>
         (read n \<longrightarrow> markAsRead True i (log, db) = (log, db)) \<and>
         keeps_read (notifications (snd w)) (notifications (snd (run w as)))"
proof -
  let ?f = "\<lambda>n. if nid n = i then n\<lparr>read := True\<rparr> else n"
  have mem: "i \<in> set (map nid db)" using assms by force
  have mem': "i \<in> set (map nid (map ?f db))"
  proof -
    have "map nid (map ?f db) = map nid db" by (induction db) auto
    with mem show ?thesis by simp
  qed
  have m: "markAsRead True i (log, db) = (log, map ?f db)"
    using mem by (rule markAsRead_ok)
  have m2: "markAsRead True i (log, map ?f db) = (log, map ?f db)"
    using markAsRead_ok [OF mem', of log] by (simp only: mark_twice)
  have same: "a \<in> set db \<Longrightarrow> (nid a = i) = (a = n)" for a
    using assms by (metis distinct_map inj_onD)
  have nth: "\<forall>k < length db. map ?f db ! k = (if db ! k = n then n\<lparr>read := True\<rparr> else db ! k)"
    using same by auto
  have one: "filter (\<lambda>a. nid a = i) db = [n]"
    using filter_nid_distinct [OF assms(1,2)] assms(3) by simp
  have flip: "filter (\<lambda>a. nid a = i \<and> \<not> read a) db = filter (\<lambda>a. \<not> read a) [n]"
    using one by (simp flip: filter_filter)
  have tr: "read_transitions db (map ?f db) = length (filter (\<lambda>a. nid a = i \<and> \<not> read a) db)"
    unfolding read_transitions_map by (rule arg_cong [where f = length], rule filter_cong) auto
  have tr2: "read_transitions (map ?f db) (map ?f db) = 0"
    by (rule read_transitions_same)
  have un: "unreadCount db = unreadCount (map ?f db) +
      length (filter (\<lambda>a. nid a = i \<and> \<not> read a) db)"
    using unread_split [of db i] by (simp add: unreadCount_def filter_map o_def)
  have noop: "read n \<Longrightarrow> map ?f db = db"
  proof -
    assume r: "read n"
    have "map ?f db = map (\<lambda>a. a) db"
      by (rule map_cong) (use same r in auto)
    then show ?thesis by simp
  qed
  show ?thesis
    using nth tr tr2 un flip noop run_keeps [of w as] by (simp add: m m2)
qed

theorem markAsRead_idempotent_witness:
  "snd (markAsRead True ''n0'' ([], [a_notification 0 False, a_notification 1 True])) =
     [a_notification 0 True, a_notification 1 True] \<and>
   markAsRead True ''n0'' (markAsRead True ''n0'' ([], [a_notification 0 False, a_notification 1 True])) =
     markAsRead True ''n0'' ([], [a_notification 0 False, a_notification 1 True]) \<and>
   read_transitions [a_notification 0 False, a_notification 1 True]
     (snd (markAsRead True ''n0'' ([], [a_notification 0 False, a_notification 1 True]))) = 1 \<and>
   read_transitions (snd (markAsRead True ''n0'' ([], [a_notification 0 False, a_notification 1 True])))
     (snd (markAsRead True ''n0'' (markAsRead True ''n0'' ([], [a_notification 0 False, a_notification 1 True])))) = 0 \<and>
   unreadCount (snd (markAsRead True ''n0'' ([], [a_notification 0 False, a_notification 1 True]))) + 1 =
     unreadCount [a_notification 0 False, a_notification 1 True] \<and>
   markAsRead True ''n1'' ([], [a_notification 0 False, a_notification 1 True]) =
     ([], [a_notification 0 False, a_notification 1 True]) \<and>
   keeps_read [a_notification 0 False, a_notification 1 True]
     (notifications (snd (run ([], init [a_notification 0 False, a_notification 1 True])
        [MarkRead True ''n1'', Poll (a_poll 0 [an_order ''A'' '''']),
         Poll (a_poll 5000 [an_order ''A'' '''', an_order ''B'' '''']),
         Click True (a_notification 0 False)])))"
proof -
  let ?db = "[a_notification 0 False, a_notification 1 True]"
  have h1: "distinct (map nid ?db)" by code_simp
  have h2: "a_notification 0 False \<in> set ?db" by simp
  have h3: "nid (a_notification 0 False) = ''n0''" by code_simp
  have h4: "\<not> read (a_notification 0 False)" by (simp add: a_notification_def)
  have g2: "a_notification 1 True \<in> set ?db" by simp
  have g3: "nid (a_notification 1 True) = ''n1''" by code_simp
  have g4: "read (a_notification 1 True)" by (simp add: a_notification_def)
  have e: "snd (markAsRead True ''n0'' ([], ?db)) = [a_notification 0 True, a_notification 1 True]"
    by code_simp
  note A = markAsRead_idempotent [OF h1 h2 h3, of "[]"]
  note B = markAsRead_idempotent [OF h1 g2 g3, of "[]"]
  have a: "markAsRead True ''n0'' (markAsRead True ''n0'' ([], ?db)) = markAsRead True ''n0'' ([], ?db)"
    using A by blast
  have b: "read_transitions ?db (snd (markAsRead True ''n0'' ([], ?db))) = 1 \<and>
      read_transitions (snd (markAsRead True ''n0'' ([], ?db)))
        (snd (markAsRead True ''n0'' (markAsRead True ''n0'' ([], ?db)))) = 0 \<and>
      unreadCount (snd (markAsRead True ''n0'' ([], ?db))) + 1 = unreadCount ?db"
    using A h4 by blast
  have c: "markAsRead True ''n1'' ([], ?db) = ([], ?db)"
    using B g4 by blast
  have "notifications (snd ([]::order list, init ?db)) = ?db" by (simp add: init_def)
  then have d: "keeps_read ?db (notifications (snd (run ([], init ?db)
        [MarkRead True ''n1'', Poll (a_poll 0 [an_order ''A'' '''']),
         Poll (a_poll 5000 [an_order ''A'' '''', an_order ''B'' '''']),
         Click True (a_notification 0 False)])))"
    using markAsRead_idempotent [OF h1 h2 h3, of "[]" "([], init ?db)"
        "[MarkRead True ''n1'', Poll (a_poll 0 [an_order ''A'' '''']),
          Poll (a_poll 5000 [an_order ''A'' '''', an_order ''B'' '''']),
          Click True (a_notification 0 False)]"]
    by simp
  show ?thesis using e a b c d by blast
qed

section \<open>Unread count\<close>

lemma length_filter_orderBy:
  "length (filter P (orderByCreatedAtDesc db)) = length (filter P db)"
proof -
  have "length (filter P (sort_key createdAt db)) = length (sort_key createdAt (filter P db))"
    by (simp add: filter_sort)
  then show ?thesis
    by (simp add: orderByCreatedAtDesc_def flip: rev_filter)
qed

text \<open>
  C10. The unread count of the panel is computed over the result of the bounded query:
  it is the number of unread records among the first 50 records in descending order of
  creation, so it is at most 50, and it falls short of the number of all unread records
  by exactly the number of unread records behind the first 50.
\<close>

theorem unread_count_over_feed_only:
  "unreadCount (listNotifications db) =
     length (filter (\<lambda>n. \<not> read n) (take 50 (orderByCreatedAtDesc db))) \<and>
   unreadCount (listNotifications db) \<le> 50 \<and>
   unreadCount (listNotifications db) +
     length (filter (\<lambda>n. \<not> read n) (drop 50 (orderByCreatedAtDesc db))) =
     length (filter (\<lambda>n. \<not> read n) db)"
proof -
  let ?P = "\<lambda>n. \<not> read n" and ?xs = "orderByCreatedAtDesc db"
  have a: "unreadCount (listNotifications db) = length (filter ?P (take 50 ?xs))"
    by (simp add: unreadCount_def listNotifications_def)
  have "length (filter ?P (take 50 ?xs)) \<le> length (take 50 ?xs)"
    by (rule length_filter_le)
  then have b: "length (filter ?P (take 50 ?xs)) \<le> 50" by simp
  have "length (filter ?P (take 50 ?xs)) + length (filter ?P (drop 50 ?xs)) =
      length (filter ?P (take 50 ?xs @ drop 50 ?xs))"
    by (simp only: filter_append length_append)
  also have "\<dots> = length (filter ?P db)"
    by (simp add: length_filter_orderBy)
  finally show ?thesis using a b by simp
qed

theorem unread_count_over_feed_only_witness:
  "unreadCount (listNotifications (map (\<lambda>k. a_notification k (k \<noteq> 0)) [0..<51])) = 0 \<and>
   length (filter (\<lambda>n. \<not> read n)
     (drop 50 (orderByCreatedAtDesc (map (\<lambda>k. a_notification k (k \<noteq> 0)) [0..<51])))) = 1 \<and>
   length (filter (\<lambda>n. \<not> read n) (map (\<lambda>k. a_notification k (k \<noteq> 0)) [0..<51])) = 1"
proof -
  let ?db = "map (\<lambda>k. a_notification k (k \<noteq> 0)) [0..<51]"
  have z: "unreadCount (listNotifications ?db) = 0" by code_simp
  have t: "length (filter (\<lambda>n. \<not> read n) ?db) = 1" by code_simp
  show ?thesis
    using unread_count_over_feed_only [of ?db] z t by simp
qed

end
